theory Spec2Isabelle
  imports Main "HOL-Library.Word"
begin

unbundle bit_operations_syntax

section \<open>The Royal Game of Ur: data model of \<open>ur.cpp\<close>\<close>

text \<open>
  \<open>Steps\<close> and \<open>Position\<close> are \<open>uint8_t\<close>; \<open>Options\<close> and the occupancy of a side are
  \<open>std::bitset<16>\<close>, modelled as a 16-bit word whose bit \<open>i\<close> is \<open>bit w i\<close>;
  \<open>remaining\<close> is a \<open>uint16_t\<close>.
\<close>

type_synonym Steps = "8 word"
type_synonym Position = "8 word"
type_synonym Options = "16 word"

record Side =
  remaining :: "16 word"
  occupied :: "16 word"

definition TILES :: "16 word" where
  "TILES = 7"

definition START :: Side where
  "START = \<lparr>remaining = TILES, occupied = 1\<rparr>"

definition COMPLETE :: Side where
  "COMPLETE = \<lparr>remaining = 0, occupied = 0\<rparr>"

subsection \<open>The checked member functions of \<open>std::bitset<16>\<close>\<close>

text \<open>
  \<open>reset(pos)\<close>, \<open>set(pos)\<close> and \<open>test(pos)\<close> throw \<open>std::out_of_range\<close> when
  \<open>pos\<close> is not below 16. \<open>operator>>\<close> shifts towards bit 0 and yields the empty
  bitset for a count of 16 or more, which is what \<open>drop_bit\<close> does on a 16-bit word.
\<close>

datatype error = OutOfRange

definition reset :: "16 word \<Rightarrow> nat \<Rightarrow> error + 16 word" where
  "reset b pos = (if pos < 16 then Inr (unset_bit pos b) else Inl OutOfRange)"

definition set_pos :: "16 word \<Rightarrow> nat \<Rightarrow> error + 16 word" where
  "set_pos b pos = (if pos < 16 then Inr (set_bit pos b) else Inl OutOfRange)"

definition test :: "16 word \<Rightarrow> nat \<Rightarrow> error + bool" where
  "test b pos = (if pos < 16 then Inr (bit b pos) else Inl OutOfRange)"

subsection \<open>The move generator\<close>

text \<open>
  \<open>getOptions\<close>, statement by statement. In rule 2 the shift binds tighter than the
  conjunction, so the operand is \<open>self.occupied & (self.occupied >> steps)\<close>. In rule 4 the
  literal \<open>0xFFFF\<close> is an \<open>int\<close>: it is shifted at 32 bits and then narrowed to the 16
  bits of the bitset. (The C++ shift of an \<open>int\<close> is defined only for counts below 32;
  \<open>Steps\<close> is documented as ranging over \<open>[0..4]\<close>.)
\<close>

definition getOptions :: "Side \<Rightarrow> Side \<Rightarrow> Steps \<Rightarrow> Options" where
  "getOptions self other steps =
    (let options = 0x7FFF;
         options = options AND occupied self;
         options = options AND NOT (occupied self AND drop_bit (unat steps) (occupied self));
         options = options AND NOT (0x0100 AND occupied other);
         options = options AND ucast (drop_bit (unat steps) (0xFFFF :: 32 word))
     in options)"

subsection \<open>The move applier\<close>

text \<open>
  \<open>apply\<close> updates both sides through references, so the model returns the two sides
  as they are when the call ends, together with either the returned flag or the
  exception that ended the call. The only checked access that can fail is
  \<open>self.occupied.reset(start)\<close>; nothing has been written when it throws.
\<close>

definition apply_move :: "Side \<Rightarrow> Side \<Rightarrow> Position \<Rightarrow> Steps \<Rightarrow> Side \<times> Side \<times> (error + bool)" where
  "apply_move self other start steps =
    (let end = start + steps;
         picked =
           (if start = 0 then
              (let self1 = self\<lparr>remaining := remaining self - 1\<rparr> in
               if remaining self1 = 0 then
                 (case reset (occupied self1) 0 of
                    Inl e \<Rightarrow> Inl e
                  | Inr b \<Rightarrow> Inr (self1\<lparr>occupied := b\<rparr>))
               else Inr self1)
            else
              (case reset (occupied self) (unat start) of
                 Inl e \<Rightarrow> Inl e
               | Inr b \<Rightarrow> Inr (self\<lparr>occupied := b\<rparr>)))
     in case picked of
          Inl e \<Rightarrow> (self, other, Inl e)
        | Inr self2 \<Rightarrow>
            (let placed =
                   (if end < 15 then
                      (case set_pos (occupied self2) (unat end) of
                         Inl e \<Rightarrow> Inl e
                       | Inr b \<Rightarrow> Inr (self2\<lparr>occupied := b\<rparr>))
                    else Inr self2)
             in case placed of
                  Inl e \<Rightarrow> (self2, other, Inl e)
                | Inr self3 \<Rightarrow>
                    (let hit = (if 5 \<le> end \<and> end \<le> 12 then test (occupied other) (unat end)
                                else Inr False)
                     in case hit of
                          Inl e \<Rightarrow> (self3, other, Inl e)
                        | Inr False \<Rightarrow> (self3, other, Inr (end = 4 \<or> end = 8 \<or> end = 14))
                        | Inr True \<Rightarrow>
                            (case reset (occupied other) (unat end) of
                               Inl e \<Rightarrow> (self3, other, Inl e)
                             | Inr b1 \<Rightarrow>
                                 (let other1 = other\<lparr>occupied := b1\<rparr>;
                                      other2 = other1\<lparr>remaining := remaining other1 + 1\<rparr>
                                  in case set_pos (occupied other2) 0 of
                                       Inl e \<Rightarrow> (self3, other2, Inl e)
                                     | Inr b2 \<Rightarrow>
                                         (self3, other2\<lparr>occupied := b2\<rparr>,
                                          Inr (end = 4 \<or> end = 8 \<or> end = 14)))))))"

subsection \<open>The validity checker\<close>

definition verifySides :: "Side \<Rightarrow> Side \<Rightarrow> bool" where
  "verifySides self other \<longleftrightarrow> occupied self AND occupied other AND 0x1FE0 = 0"


subsection \<open>Reading a bitset as a set of positions\<close>

text \<open>Bit \<open>i\<close> of an \<open>Options\<close> value is set iff a move from position \<open>i\<close> is valid.\<close>

definition positions :: "16 word \<Rightarrow> nat set" where
  "positions b = Set.filter (bit b) {0..<16}"

text \<open>
  The cross-side condition in words: no cell of the shared middle lane, positions 5 to 12,
  holds a piece of both sides.
\<close>

definition collision :: "Side \<Rightarrow> Side \<Rightarrow> nat \<Rightarrow> bool" where
  "collision self other p \<longleftrightarrow> bit (occupied self) p \<and> bit (occupied other) p"

definition no_shared_collision :: "Side \<Rightarrow> Side \<Rightarrow> bool" where
  "no_shared_collision self other \<longleftrightarrow> (\<forall>p \<in> {5..12}. \<not> collision self other p)"

text \<open>The same condition with the central rosette, position 8, left out.\<close>

definition no_shared_collision_off_rosette :: "Side \<Rightarrow> Side \<Rightarrow> bool" where
  "no_shared_collision_off_rosette self other \<longleftrightarrow>
     (\<forall>p \<in> {5..12} - {8}. \<not> collision self other p)"

text \<open>
  Pieces of a side on the board, positions 1 to 14, and the conservation equation against
  a count of finished pieces that is kept outside the two sides.
\<close>

definition pieces :: "16 word \<Rightarrow> nat" where
  "pieces b = length (filter (bit b) [1..<15])"

definition conserved :: "Side \<Rightarrow> nat \<Rightarrow> bool" where
  "conserved side finished \<longleftrightarrow>
     unat (remaining side) + pieces (occupied side) + finished = unat TILES"

text \<open>
  Bit 0 of \<open>occupied\<close> is documented as redundant with \<open>remaining\<close>: it is set
  exactly when the starting pile is not empty.
\<close>

definition pile_flag_in_sync :: "Side \<Rightarrow> bool" where
  "pile_flag_in_sync side \<longleftrightarrow> bit (occupied side) 0 = (remaining side \<noteq> 0)"

section \<open>Bitwise facts\<close>

lemma bit_0x7FFF: "bit (0x7FFF :: 16 word) p \<longleftrightarrow> p < 15"
proof -
  have "(0x7FFF :: 16 word) = mask 15" by (simp add: mask_eq_exp_minus_1)
  then show ?thesis by (simp only: bit_mask_iff) auto
qed

lemma bit_0xFFFF: "bit (0xFFFF :: 32 word) p \<longleftrightarrow> p < 16"
proof -
  have "(0xFFFF :: 32 word) = mask 16" by (simp add: mask_eq_exp_minus_1)
  then show ?thesis by (simp only: bit_mask_iff) auto
qed

lemma bit_0x0100: "bit (0x0100 :: 16 word) p \<longleftrightarrow> p = 8"
proof -
  have "(0x0100 :: 16 word) = 2 ^ 8" by simp
  then show ?thesis by (simp only: bit_exp_iff) auto
qed

lemma bit_0x1FE0: "bit (0x1FE0 :: 16 word) p \<longleftrightarrow> 5 \<le> p \<and> p \<le> 12"
proof -
  have "(0x1FE0 :: 16 word) = push_bit 5 (mask 8)" by (simp add: mask_eq_exp_minus_1)
  then show ?thesis by (simp only: bit_push_bit_iff bit_mask_iff) auto
qed

lemma word_zero_iff_no_bit: "(w :: 16 word) = 0 \<longleftrightarrow> (\<forall>p. \<not> bit w p)"
proof
  assume "w = 0"
  then show "\<forall>p. \<not> bit w p" by simp
next
  assume "\<forall>p. \<not> bit w p"
  then show "w = 0" by (simp add: bit_eq_iff)
qed

text \<open>The four rules of \<open>getOptions\<close>, read off bit by bit.\<close>

lemma bit_getOptions:
  "bit (getOptions self other steps) p \<longleftrightarrow>
     p < 15 \<and> bit (occupied self) p \<and> \<not> bit (occupied self) (p + unat steps)
     \<and> \<not> (p = 8 \<and> bit (occupied other) 8) \<and> p + unat steps < 16"
  unfolding getOptions_def Let_def
  apply (simp only: bit_and_iff bit_not_iff bit_drop_bit_eq bit_ucast_iff
        bit_0x7FFF bit_0xFFFF bit_0x0100 possible_bit_word comp_apply)
  apply (auto simp add: ac_simps)
  done

lemma bit_verifySides:
  "verifySides self other \<longleftrightarrow>
     (\<forall>p. 5 \<le> p \<and> p \<le> 12 \<longrightarrow> \<not> (bit (occupied self) p \<and> bit (occupied other) p))"
proof -
  have "verifySides self other \<longleftrightarrow>
      (\<forall>p. \<not> bit (occupied self AND occupied other AND 0x1FE0) p)"
    unfolding verifySides_def by (rule word_zero_iff_no_bit)
  also have "\<dots> \<longleftrightarrow>
      (\<forall>p. 5 \<le> p \<and> p \<le> 12 \<longrightarrow> \<not> (bit (occupied self) p \<and> bit (occupied other) p))"
    by (simp only: bit_and_iff bit_0x1FE0) blast
  finally show ?thesis .
qed

lemma positions_iff: "p \<in> positions b \<longleftrightarrow> bit b p"
  by (auto simp add: positions_def dest: bit_imp_le_length)

lemma no_shared_collision_mask:
  "no_shared_collision self other \<longleftrightarrow> occupied self AND occupied other AND 0x1FE0 = 0"
  using bit_verifySides [of self other]
  by (auto simp add: verifySides_def no_shared_collision_def collision_def)

text \<open>
  What \<open>apply\<close> computes when \<open>start\<close> is a position of the bitset, and what it does
  otherwise.
\<close>

lemma rosette_unat: "(e = 4 \<or> e = 8 \<or> e = 14) \<longleftrightarrow> unat e \<in> {4, 8, 14}" for e :: "8 word"
  using word_unat_eq_iff [of e 4] word_unat_eq_iff [of e 8] word_unat_eq_iff [of e 14]
  by simp

lemma apply_move_in_range:
  assumes "unat start < 16"
  shows "apply_move self other start steps =
    (let end = start + steps;
         self2 = (if start = 0 then
                    (if remaining self - 1 = 0
                     then self\<lparr>remaining := remaining self - 1,
                               occupied := unset_bit 0 (occupied self)\<rparr>
                     else self\<lparr>remaining := remaining self - 1\<rparr>)
                  else self\<lparr>occupied := unset_bit (unat start) (occupied self)\<rparr>);
         self3 = (if unat end < 15 then self2\<lparr>occupied := set_bit (unat end) (occupied self2)\<rparr>
                  else self2);
         other2 = (if 5 \<le> unat end \<and> unat end \<le> 12 \<and> bit (occupied other) (unat end)
                   then other\<lparr>occupied := set_bit 0 (unset_bit (unat end) (occupied other)),
                               remaining := remaining other + 1\<rparr>
                   else other)
     in (self3, other2, Inr (unat end \<in> {4, 8, 14})))"
  using assms
  by (auto simp add: apply_move_def Let_def reset_def set_pos_def test_def
        word_less_nat_alt word_le_nat_alt rosette_unat)

lemma apply_move_out_of_range:
  assumes "16 \<le> unat start"
  shows "apply_move self other start steps = (self, other, Inl OutOfRange)"
proof -
  from assms have "start \<noteq> 0" by auto
  with assms show ?thesis
    by (simp add: apply_move_def Let_def reset_def)
qed

lemma legal_start:
  assumes "unat start \<in> positions (getOptions self other steps)"
  shows "unat start < 15" and "unat start + unat steps < 16"
    and "unat (start + steps) = unat start + unat steps"
    and "bit (occupied self) (unat start)"
    and "\<not> bit (occupied self) (unat start + unat steps)"
    and "1 \<le> unat steps"
proof -
  from assms have b: "bit (getOptions self other steps) (unat start)"
    by (simp add: positions_iff)
  then show lt: "unat start < 15" and le: "unat start + unat steps < 16"
    and occ: "bit (occupied self) (unat start)"
    and free: "\<not> bit (occupied self) (unat start + unat steps)"
    by (simp_all add: bit_getOptions)
  from le have "unat start + unat steps < 2 ^ LENGTH(8)" by simp
  then show "unat (start + steps) = unat start + unat steps"
    by (simp only: unat_add_lem)
  from occ free have "unat steps \<noteq> 0" by (auto intro: ccontr)
  then show "1 \<le> unat steps" by simp
qed

text \<open>Counting the pieces on the board when one bit changes.\<close>

lemma pieces_card: "pieces b = card {p. 1 \<le> p \<and> p < 15 \<and> bit b p}"
proof -
  have "pieces b = card ({p. bit b p} \<inter> set [1..<15])"
    unfolding pieces_def by (rule distinct_length_filter) simp
  also have "{p. bit b p} \<inter> set [1..<15] = {p. 1 \<le> p \<and> p < 15 \<and> bit b p}"
    by auto
  finally show ?thesis .
qed

lemma pieces_set_bit:
  assumes "1 \<le> q" and "q < 15" and "\<not> bit b q"
  shows "pieces (set_bit q b) = pieces b + 1"
proof -
  have "{p. 1 \<le> p \<and> p < 15 \<and> bit (set_bit q b) p} = insert q {p. 1 \<le> p \<and> p < 15 \<and> bit b p}"
    using assms by (auto simp add: bit_set_bit_iff)
  moreover have "finite {p. 1 \<le> p \<and> p < 15 \<and> bit b p}" by simp
  moreover have "q \<notin> {p. 1 \<le> p \<and> p < 15 \<and> bit b p}" using assms by simp
  ultimately show ?thesis by (simp add: pieces_card)
qed

lemma pieces_unset_bit:
  assumes "1 \<le> q" and "q < 15" and "bit b q"
  shows "pieces (unset_bit q b) + 1 = pieces b"
proof -
  have "{p. 1 \<le> p \<and> p < 15 \<and> bit b p} = insert q {p. 1 \<le> p \<and> p < 15 \<and> bit (unset_bit q b) p}"
    using assms by (auto simp add: bit_unset_bit_iff)
  moreover have "finite {p. 1 \<le> p \<and> p < 15 \<and> bit (unset_bit q b) p}" by simp
  moreover have "q \<notin> {p. 1 \<le> p \<and> p < 15 \<and> bit (unset_bit q b) p}"
    by (simp add: bit_unset_bit_iff)
  ultimately show ?thesis by (simp add: pieces_card)
qed

lemma pieces_set_bit_0: "pieces (set_bit 0 b) = pieces b"
proof -
  have "{p. 1 \<le> p \<and> p < 15 \<and> bit (set_bit 0 b) p} = {p. 1 \<le> p \<and> p < 15 \<and> bit b p}"
    by (auto simp add: bit_set_bit_iff)
  then show ?thesis by (simp only: pieces_card)
qed

lemma pieces_unset_bit_0: "pieces (unset_bit 0 b) = pieces b"
proof -
  have "{p. 1 \<le> p \<and> p < 15 \<and> bit (unset_bit 0 b) p} = {p. 1 \<le> p \<and> p < 15 \<and> bit b p}"
    by (auto simp add: bit_unset_bit_iff)
  then show ?thesis by (simp only: pieces_card)
qed

text \<open>The pile counter and the conservation equation, one side at a time.\<close>

lemma unat_succ: "unat (r :: 16 word) \<le> 7 \<Longrightarrow> unat (r + 1) = unat r + 1"
proof -
  assume "unat r \<le> 7"
  then have "unat r + unat (1 :: 16 word) < 2 ^ LENGTH(16)" by simp
  then have "unat (r + 1) = unat r + unat (1 :: 16 word)" by (simp only: unat_add_lem)
  then show ?thesis by simp
qed

lemma unat_pred: "(r :: 16 word) \<noteq> 0 \<Longrightarrow> unat (r - 1) + 1 = unat r"
proof -
  assume "r \<noteq> 0"
  then have "1 \<le> r" by (simp add: word_le_nat_alt unat_eq_0 Suc_le_eq unat_gt_0)
  then have "unat (r - 1) = unat r - unat (1 :: 16 word)" by (rule unat_sub)
  moreover from \<open>r \<noteq> 0\<close> have "0 < unat r" by (simp add: unat_gt_0)
  ultimately show ?thesis by simp
qed

lemma conserved_other_after:
  assumes "conserved other fo"
  shows "conserved
    (if 5 \<le> e \<and> e \<le> 12 \<and> bit (occupied other) e
     then other\<lparr>occupied := set_bit 0 (unset_bit e (occupied other)),
                 remaining := remaining other + 1\<rparr>
     else other) fo"
proof (cases "5 \<le> e \<and> e \<le> 12 \<and> bit (occupied other) e")
  case True
  then have "pieces (unset_bit e (occupied other)) + 1 = pieces (occupied other)"
    by (intro pieces_unset_bit) auto
  moreover from assms have "unat (remaining other) \<le> 7"
    by (simp add: conserved_def TILES_def)
  then have "unat (remaining other + 1) = unat (remaining other) + 1"
    by (rule unat_succ)
  ultimately have "conserved (other\<lparr>occupied := set_bit 0 (unset_bit e (occupied other)),
                 remaining := remaining other + 1\<rparr>) fo"
    using assms by (simp add: conserved_def pieces_set_bit_0)
  then show ?thesis by (simp only: if_P [OF True])
next
  case False
  from assms show ?thesis by (simp only: if_not_P [OF False])
qed

lemma conserved_self_after:
  assumes legal: "unat (start :: Position) \<in> positions (getOptions self other steps)"
    and cons: "conserved self fs"
    and sync: "bit (occupied self) 0 \<longrightarrow> remaining self \<noteq> 0"
  defines "e \<equiv> unat start + unat steps"
  defines "self2 \<equiv> (if start = 0 then
                    (if remaining self - 1 = 0
                     then self\<lparr>remaining := remaining self - 1,
                               occupied := unset_bit 0 (occupied self)\<rparr>
                     else self\<lparr>remaining := remaining self - 1\<rparr>)
                  else self\<lparr>occupied := unset_bit (unat start) (occupied self)\<rparr>)"
  shows "conserved
    (if e < 15 then self2\<lparr>occupied := set_bit e (occupied self2)\<rparr> else self2)
    (if e = 15 then fs + 1 else fs)"
proof -
  note L = legal_start [OF legal]
  have e_pos: "1 \<le> e" and e_le: "e < 16" and e_ne: "e \<noteq> unat start"
    using L(2,6) by (simp_all add: e_def)
  have free: "\<not> bit (occupied self) e" using L(5) by (simp add: e_def)
  have picked: "unat (remaining self2) + pieces (occupied self2) + 1
      = unat (remaining self) + pieces (occupied self)"
    and free2: "\<not> bit (occupied self2) e"
  proof -
    show "unat (remaining self2) + pieces (occupied self2) + 1
      = unat (remaining self) + pieces (occupied self)"
    proof (cases "start = 0")
      case True
      with L(4) sync have "remaining self \<noteq> 0" by simp
      then have "unat (remaining self - 1) + 1 = unat (remaining self)" by (rule unat_pred)
      with True show ?thesis
        by (simp add: self2_def pieces_unset_bit_0)
    next
      case False
      then have "1 \<le> unat start" by (simp add: unat_eq_0 Suc_le_eq unat_gt_0)
      with L(1,4) have "pieces (unset_bit (unat start) (occupied self)) + 1 = pieces (occupied self)"
        by (intro pieces_unset_bit) auto
      with False show ?thesis by (simp add: self2_def)
    qed
    show "\<not> bit (occupied self2) e"
      using free by (simp add: self2_def bit_unset_bit_iff)
  qed
  show ?thesis
  proof (cases "e < 15")
    case True
    with e_pos free2 have "pieces (set_bit e (occupied self2)) = pieces (occupied self2) + 1"
      by (intro pieces_set_bit) auto
    with True picked cons show ?thesis by (simp add: conserved_def)
  next
    case False
    with e_le have "e = 15" by simp
    with picked cons show ?thesis by (simp add: conserved_def)
  qed
qed

section \<open>The move generator\<close>

text \<open>
  C9. From the starting position of both sides and a roll of 4, the set of legal starts is
  exactly \<open>{0}\<close> (the pile), and applying that move leaves the mover with 6 tiles in the
  pile and positions 0 and 4 occupied, leaves the opponent as it was, and returns true.
\<close>

theorem start_roll_four:
  "positions (getOptions START START 4) = {0}
   \<and> apply_move START START 0 4 = (\<lparr>remaining = 6, occupied = 0x11\<rparr>, START, Inr True)
   \<and> positions 0x11 = {0, 4}
   \<and> START = \<lparr>remaining = 7, occupied = 1\<rparr> \<and> positions 1 = {0}"
proof -
  have a: "positions (getOptions START START 4) = {0}"
    by code_simp
  have b: "apply_move START START 0 4 = (\<lparr>remaining = 6, occupied = 0x11\<rparr>, START, Inr True)"
    by code_simp
  have c: "positions 0x11 = {0, 4}"
    by code_simp
  have d: "START = \<lparr>remaining = 7, occupied = 1\<rparr>"
    by (simp add: START_def TILES_def)
  have e: "positions 1 = {0}"
    by code_simp
  from a b c d e show ?thesis by (simp only: simp_thms)
qed

text \<open>
  C1. The claim is that with the opponent on position 8 no legal start lands on 8. Rule 3
  of \<open>getOptions\<close> masks bit 8 of the option set, which is the start position 8, not the
  starts that end on 8. With a piece of the mover on 4, a piece of the opponent on 8 and
  a roll of 4, start 4 is offered although it lands on the opponent's piece on the
  central rosette.
\<close>

theorem getOptions_offers_landing_on_held_rosette:
  "bit (occupied \<lparr>remaining = 6, occupied = 0x0101\<rparr>) 8
   \<and> 4 \<in> positions (getOptions \<lparr>remaining = 6, occupied = 0x0011\<rparr>
                        \<lparr>remaining = 6, occupied = 0x0101\<rparr> 4)
   \<and> (4 :: nat) + unat (4 :: Steps) = 8"
  by (simp add: positions_iff bit_getOptions)

text \<open>
  C7. No self-collision: for a roll between 1 and 4, every legal start \<open>p\<close> has bit
  \<open>p + steps\<close> of the mover's occupancy clear.
\<close>

theorem getOptions_no_self_collision:
  assumes "1 \<le> steps" and "steps \<le> 4"
    and "p \<in> positions (getOptions self other steps)"
  shows "\<not> bit (occupied self) (p + unat steps)"
  using assms(3) by (simp add: positions_iff bit_getOptions)

theorem getOptions_no_self_collision_witness:
  "(1 :: Steps) \<le> 4 \<and> (4 :: Steps) \<le> 4 \<and> 0 \<in> positions (getOptions START START 4)
   \<and> \<not> bit (occupied START) (0 + unat (4 :: Steps))"
proof -
  have h: "0 \<in> positions (getOptions START START 4)"
    by (simp add: positions_iff bit_getOptions START_def)
  show ?thesis
    using h getOptions_no_self_collision [of 4 0 START START] by simp
qed

text \<open>
  C8. No overshoot: for a roll between 0 and 4, every legal start \<open>p\<close> has
  \<open>p + steps \<le> 15\<close>. Bearing off exactly is allowed: for a roll between 1 and 4, a piece
  on position \<open>15 - steps\<close> is a legal start (bit 15 of the occupancy being unused).
\<close>

theorem getOptions_no_overshoot:
  assumes "steps \<le> 4"
  shows "(\<forall>p \<in> positions (getOptions self other steps). p + unat steps \<le> 15)
    \<and> (1 \<le> steps \<and> bit (occupied self) (15 - unat steps) \<and> \<not> bit (occupied self) 15
        \<longrightarrow> 15 - unat steps \<in> positions (getOptions self other steps))"
proof -
  from assms have s: "unat steps \<le> 4" by (simp add: word_le_nat_alt)
  have "1 \<le> steps \<Longrightarrow> 1 \<le> unat steps" by (simp add: word_le_nat_alt)
  with s show ?thesis
    by (auto simp add: positions_iff bit_getOptions)
qed

theorem getOptions_no_overshoot_witness:
  "(1 :: Steps) \<le> 4
   \<and> 14 \<in> positions (getOptions \<lparr>remaining = 0, occupied = 0x4000\<rparr> START 1)
   \<and> (14 :: nat) + unat (1 :: Steps) \<le> 15"
  using getOptions_no_overshoot [of 1 "\<lparr>remaining = 0, occupied = 0x4000\<rparr>" START]
  by simp

section \<open>The validity checker\<close>

text \<open>
  C2, as stated: \<open>_verifySides\<close> ignores the central rosette. It does not: with both sides
  on position 8 and on no other shared cell the checker returns false.
\<close>

theorem verifySides_counts_rosette:
  "no_shared_collision_off_rosette \<lparr>remaining = 6, occupied = 0x0101\<rparr>
                                   \<lparr>remaining = 6, occupied = 0x0101\<rparr>
   \<and> \<not> verifySides \<lparr>remaining = 6, occupied = 0x0101\<rparr> \<lparr>remaining = 6, occupied = 0x0101\<rparr>"
proof -
  have a: "no_shared_collision_off_rosette \<lparr>remaining = 6, occupied = 0x0101\<rparr>
                                           \<lparr>remaining = 6, occupied = 0x0101\<rparr>"
    by code_simp
  have b: "\<not> verifySides \<lparr>remaining = 6, occupied = 0x0101\<rparr> \<lparr>remaining = 6, occupied = 0x0101\<rparr>"
    by (simp add: verifySides_def)
  from a b show ?thesis by (simp only: simp_thms)
qed

text \<open>
  C2, amended: \<open>_verifySides\<close> returns true if and only if no position of the shared
  middle lane 5 to 12, the central rosette 8 included, is occupied by both sides.
\<close>

theorem verifySides_iff_no_shared_collision:
  "verifySides self other \<longleftrightarrow> no_shared_collision self other"
  by (auto simp add: bit_verifySides no_shared_collision_def collision_def)

theorem verifySides_iff_no_shared_collision_witness:
  "verifySides START START \<and> no_shared_collision START START"
  using verifySides_iff_no_shared_collision [of START START]
  by (simp add: verifySides_def START_def)

section \<open>The move applier\<close>

text \<open>
  C6. For a legal start, \<open>apply\<close> returns true if the destination \<open>start + steps\<close> is
  one of 4, 8 and 14, and false otherwise.
\<close>

theorem apply_move_goes_again:
  assumes "unat start \<in> positions (getOptions self other steps)"
  shows "snd (snd (apply_move self other start steps))
           = Inr (unat start + unat steps \<in> {4, 8, 14})"
proof -
  from assms have "unat start < 16"
    and "unat (start + steps) = unat start + unat steps"
    using legal_start(1,3) [OF assms] by simp_all
  then show ?thesis
    by (simp add: apply_move_in_range Let_def)
qed

theorem apply_move_goes_again_witness:
  "unat (0 :: Position) \<in> positions (getOptions START START 4)
   \<and> snd (snd (apply_move START START 0 4)) = Inr True
   \<and> unat (0 :: Position) + unat (4 :: Steps) \<in> {4, 8, 14}"
proof -
  have h: "unat (0 :: Position) \<in> positions (getOptions START START 4)"
    by (simp add: positions_iff bit_getOptions START_def)
  show ?thesis
    using h apply_move_goes_again [OF h] by simp
qed

text \<open>
  C10. Frame property on the opponent: whenever the capture condition fails, that is
  \<open>end\<close> (the \<open>Position\<close> value \<open>start + steps\<close> that \<open>apply\<close> computes) is outside 5 to
  12 or bit \<open>end\<close> of the opponent's occupancy is clear, the opponent's side after the
  call is the one before it, in \<open>remaining\<close> and in every bit of \<open>occupied\<close>. No
  legality of the move is needed; this covers the call that ends in an exception too.
\<close>

theorem apply_move_frame_other:
  assumes "\<not> (5 \<le> start + steps \<and> start + steps \<le> 12
              \<and> bit (occupied other) (unat (start + steps)))"
  shows "fst (snd (apply_move self other start steps)) = other"
proof (cases "unat start < 16")
  case True
  from assms have "\<not> (5 \<le> unat (start + steps) \<and> unat (start + steps) \<le> 12
              \<and> bit (occupied other) (unat (start + steps)))"
    by (simp add: word_le_nat_alt)
  with True show ?thesis
    by (auto simp add: apply_move_in_range Let_def)
next
  case False
  then have "16 \<le> unat start" by simp
  then show ?thesis
    by (simp add: apply_move_out_of_range)
qed

theorem apply_move_frame_other_witness:
  "\<not> (5 \<le> (0 :: Position) + (4 :: Steps) \<and> (0 :: Position) + (4 :: Steps) \<le> 12
              \<and> bit (occupied START) (unat ((0 :: Position) + (4 :: Steps))))
   \<and> fst (snd (apply_move START START 0 4)) = START"
  using apply_move_frame_other [of 0 4 START START] by simp

text \<open>
  C3. Capture: for a legal move whose destination lies in 5 to 12, is not 8, and is
  occupied by the opponent, \<open>apply\<close> increments the opponent's \<open>remaining\<close> by one (the
  \<open>uint16_t\<close> increment, which is one more as a number below 65535), clears the
  destination bit of the opponent's occupancy and sets its bit 0.
\<close>

theorem apply_move_capture:
  assumes "unat start \<in> positions (getOptions self other steps)"
    and "5 \<le> unat start + unat steps" and "unat start + unat steps \<le> 12"
    and "unat start + unat steps \<noteq> 8"
    and "bit (occupied other) (unat start + unat steps)"
  shows "\<exists>self' other' again.
      apply_move self other start steps = (self', other', Inr again)
      \<and> remaining other' = remaining other + 1
      \<and> (remaining other < 0xFFFF \<longrightarrow> unat (remaining other') = unat (remaining other) + 1)
      \<and> \<not> bit (occupied other') (unat start + unat steps)
      \<and> bit (occupied other') 0"
proof -
  have r: "unat start < 16" and e: "unat (start + steps) = unat start + unat steps"
    using legal_start(1,3) [OF assms(1)] by simp_all
  have n: "remaining other < 0xFFFF \<Longrightarrow> unat (remaining other + 1) = unat (remaining other) + 1"
    by (simp add: word_less_nat_alt unat_word_ariths)
  from assms(2) have z: "0 < unat start \<or> 0 < unat steps" by arith
  from r e assms(2,3,5) n z show ?thesis
    by (auto simp add: apply_move_in_range Let_def bit_set_bit_iff bit_unset_bit_iff)
qed

theorem apply_move_capture_witness:
  "unat (5 :: Position) \<in> positions (getOptions \<lparr>remaining = 6, occupied = 0x0021\<rparr>
                                                 \<lparr>remaining = 6, occupied = 0x0201\<rparr> 4)
   \<and> 5 \<le> unat (5 :: Position) + unat (4 :: Steps)
   \<and> unat (5 :: Position) + unat (4 :: Steps) \<le> 12
   \<and> unat (5 :: Position) + unat (4 :: Steps) \<noteq> 8
   \<and> bit (occupied \<lparr>remaining = 6, occupied = 0x0201\<rparr>) (unat (5 :: Position) + unat (4 :: Steps))
   \<and> apply_move \<lparr>remaining = 6, occupied = 0x0021\<rparr> \<lparr>remaining = 6, occupied = 0x0201\<rparr> 5 4
       = (\<lparr>remaining = 6, occupied = 0x0201\<rparr>, \<lparr>remaining = 7, occupied = 0x0001\<rparr>, Inr False)"
proof -
  have h1: "unat (5 :: Position) \<in> positions (getOptions \<lparr>remaining = 6, occupied = 0x0021\<rparr>
                                                 \<lparr>remaining = 6, occupied = 0x0201\<rparr> 4)"
    by (simp add: positions_iff bit_getOptions)
  have h2: "5 \<le> unat (5 :: Position) + unat (4 :: Steps)"
    and h3: "unat (5 :: Position) + unat (4 :: Steps) \<le> 12"
    and h4: "unat (5 :: Position) + unat (4 :: Steps) \<noteq> 8"
    by simp_all
  have h5: "bit (occupied \<lparr>remaining = 6, occupied = 0x0201\<rparr>)
              (unat (5 :: Position) + unat (4 :: Steps))"
    by simp
  have r: "apply_move \<lparr>remaining = 6, occupied = 0x0021\<rparr> \<lparr>remaining = 6, occupied = 0x0201\<rparr> 5 4
       = (\<lparr>remaining = 6, occupied = 0x0201\<rparr>, \<lparr>remaining = 7, occupied = 0x0001\<rparr>, Inr False)"
    by code_simp
  show ?thesis
    using h1 h2 h3 h4 h5 r apply_move_capture [OF h1 h2 h3 h4 h5]
    by (simp only: simp_thms)
qed

text \<open>
  C5. Cross-side invariant: from a state in which no position of the shared middle lane 5
  to 12 is occupied by both sides, every legal move leads to such a state again.
\<close>

theorem apply_move_keeps_lane_invariant:
  assumes legal: "unat start \<in> positions (getOptions self other steps)"
    and inv: "no_shared_collision self other"
  shows "\<exists>self' other' again.
      apply_move self other start steps = (self', other', Inr again)
      \<and> no_shared_collision self' other'"
proof -
  have r: "unat start < 16" and e: "unat (start + steps) = unat start + unat steps"
    using legal_start(1,3) [OF legal] by simp_all
  show ?thesis
    unfolding apply_move_in_range [OF r] Let_def e
    using inv
    by (auto simp add: no_shared_collision_def collision_def bit_set_bit_iff bit_unset_bit_iff)
qed

theorem apply_move_keeps_lane_invariant_witness:
  "unat (4 :: Position) \<in> positions (getOptions \<lparr>remaining = 6, occupied = 0x0011\<rparr>
                                                 \<lparr>remaining = 6, occupied = 0x0101\<rparr> 4)
   \<and> no_shared_collision \<lparr>remaining = 6, occupied = 0x0011\<rparr> \<lparr>remaining = 6, occupied = 0x0101\<rparr>
   \<and> apply_move \<lparr>remaining = 6, occupied = 0x0011\<rparr> \<lparr>remaining = 6, occupied = 0x0101\<rparr> 4 4
       = (\<lparr>remaining = 6, occupied = 0x0101\<rparr>, \<lparr>remaining = 7, occupied = 0x0001\<rparr>, Inr True)
   \<and> no_shared_collision \<lparr>remaining = 6, occupied = 0x0101\<rparr> \<lparr>remaining = 7, occupied = 0x0001\<rparr>"
proof -
  have h1: "unat (4 :: Position) \<in> positions (getOptions \<lparr>remaining = 6, occupied = 0x0011\<rparr>
                                                 \<lparr>remaining = 6, occupied = 0x0101\<rparr> 4)"
    by (simp add: positions_iff bit_getOptions)
  have h2: "no_shared_collision \<lparr>remaining = 6, occupied = 0x0011\<rparr>
                                \<lparr>remaining = 6, occupied = 0x0101\<rparr>"
    by (simp add: no_shared_collision_mask)
  have r: "apply_move \<lparr>remaining = 6, occupied = 0x0011\<rparr> \<lparr>remaining = 6, occupied = 0x0101\<rparr> 4 4
       = (\<lparr>remaining = 6, occupied = 0x0101\<rparr>, \<lparr>remaining = 7, occupied = 0x0001\<rparr>, Inr True)"
    by code_simp
  from apply_move_keeps_lane_invariant [OF h1 h2]
  obtain self' other' again
    where eq: "apply_move \<lparr>remaining = 6, occupied = 0x0011\<rparr>
                 \<lparr>remaining = 6, occupied = 0x0101\<rparr> 4 4 = (self', other', Inr again)"
      and inv: "no_shared_collision self' other'"
    by blast
  from eq have "self' = \<lparr>remaining = 6, occupied = 0x0101\<rparr>"
    and "other' = \<lparr>remaining = 7, occupied = 0x0001\<rparr>"
    by (simp_all only: r prod.inject)
  with inv have a: "no_shared_collision \<lparr>remaining = 6, occupied = 0x0101\<rparr>
                               \<lparr>remaining = 7, occupied = 0x0001\<rparr>"
    by (simp only:)
  from h1 h2 r a show ?thesis by (simp only: simp_thms)
qed

text \<open>
  C4, as stated: the conservation equation alone, holding for both sides before a legal
  move, holds for both after it. It does not: bit 0 of \<open>occupied\<close> can be set while
  \<open>remaining\<close> is 0, entering from the pile is then legal, and \<open>self.remaining--\<close> wraps
  to 65535. Here all 7 pieces of the mover are finished before the move, the move does
  not end on 15, and afterwards the pile and the board alone hold more than 7 pieces.
\<close>

theorem apply_move_breaks_conservation:
  "unat (0 :: Position) \<in> positions (getOptions \<lparr>remaining = 0, occupied = 0x0001\<rparr> START 1)
   \<and> conserved \<lparr>remaining = 0, occupied = 0x0001\<rparr> 7
   \<and> conserved START 0
   \<and> apply_move \<lparr>remaining = 0, occupied = 0x0001\<rparr> START 0 1
       = (\<lparr>remaining = 0xFFFF, occupied = 0x0003\<rparr>, START, Inr False)
   \<and> unat (0 :: Position) + unat (1 :: Steps) \<noteq> 15
   \<and> \<not> conserved \<lparr>remaining = 0xFFFF, occupied = 0x0003\<rparr> 7
   \<and> unat TILES < unat (remaining \<lparr>remaining = 0xFFFF, occupied = 0x0003\<rparr>)
                     + pieces (occupied \<lparr>remaining = 0xFFFF, occupied = 0x0003\<rparr>)"
proof -
  have a: "unat (0 :: Position) \<in> positions (getOptions \<lparr>remaining = 0, occupied = 0x0001\<rparr> START 1)"
    by (simp add: positions_iff bit_getOptions)
  have b: "conserved \<lparr>remaining = 0, occupied = 0x0001\<rparr> 7"
    by code_simp
  have c: "conserved START 0"
    by code_simp
  have d: "apply_move \<lparr>remaining = 0, occupied = 0x0001\<rparr> START 0 1
       = (\<lparr>remaining = 0xFFFF, occupied = 0x0003\<rparr>, START, Inr False)"
    by code_simp
  have e: "unat (0 :: Position) + unat (1 :: Steps) \<noteq> 15"
    by simp
  have f: "\<not> conserved \<lparr>remaining = 0xFFFF, occupied = 0x0003\<rparr> 7"
    by (simp add: conserved_def TILES_def)
  have g: "unat TILES < unat (remaining \<lparr>remaining = 0xFFFF, occupied = 0x0003\<rparr>)
                     + pieces (occupied \<lparr>remaining = 0xFFFF, occupied = 0x0003\<rparr>)"
    by (simp add: TILES_def)
  from a b c d e f g show ?thesis by (simp only: simp_thms)
qed

text \<open>
  C4, amended: when, besides the conservation equation of both sides, bit 0 of the
  mover's occupancy is set only if the mover's pile is not empty, a legal move keeps the
  equation for both sides, the mover's finished count growing by one exactly when the
  move ends on position 15, and a captured piece going back to the opponent's pile.
\<close>

theorem apply_move_conserves:
  assumes legal: "unat start \<in> positions (getOptions self other steps)"
    and "conserved self fs" and "conserved other fo"
    and "bit (occupied self) 0 \<longrightarrow> remaining self \<noteq> 0"
  shows "\<exists>self' other' again.
      apply_move self other start steps = (self', other', Inr again)
      \<and> conserved self' (if unat start + unat steps = 15 then fs + 1 else fs)
      \<and> conserved other' fo"
proof -
  have r: "unat start < 16" and e: "unat (start + steps) = unat start + unat steps"
    using legal_start(1,3) [OF legal] by simp_all
  show ?thesis
    unfolding apply_move_in_range [OF r] Let_def e
    using conserved_self_after [OF assms(1,2,4)] conserved_other_after [OF assms(3)]
    by simp
qed

theorem apply_move_conserves_witness:
  "unat (11 :: Position) \<in> positions (getOptions \<lparr>remaining = 3, occupied = 0x0801\<rparr>
                                                  \<lparr>remaining = 5, occupied = 0x0201\<rparr> 4)
   \<and> conserved \<lparr>remaining = 3, occupied = 0x0801\<rparr> 3
   \<and> conserved \<lparr>remaining = 5, occupied = 0x0201\<rparr> 1
   \<and> remaining \<lparr>remaining = 3, occupied = 0x0801\<rparr> \<noteq> 0
   \<and> unat (11 :: Position) + unat (4 :: Steps) = 15
   \<and> apply_move \<lparr>remaining = 3, occupied = 0x0801\<rparr> \<lparr>remaining = 5, occupied = 0x0201\<rparr> 11 4
       = (\<lparr>remaining = 3, occupied = 0x0001\<rparr>, \<lparr>remaining = 5, occupied = 0x0201\<rparr>, Inr False)
   \<and> conserved \<lparr>remaining = 3, occupied = 0x0001\<rparr> 4
   \<and> conserved \<lparr>remaining = 5, occupied = 0x0201\<rparr> 1"
proof -
  have h1: "unat (11 :: Position) \<in> positions (getOptions \<lparr>remaining = 3, occupied = 0x0801\<rparr>
                                                  \<lparr>remaining = 5, occupied = 0x0201\<rparr> 4)"
    by (simp add: positions_iff bit_getOptions)
  have h2: "conserved \<lparr>remaining = 3, occupied = 0x0801\<rparr> 3"
    by code_simp
  have h3: "conserved \<lparr>remaining = 5, occupied = 0x0201\<rparr> 1"
    by code_simp
  have n: "remaining \<lparr>remaining = 3, occupied = 0x0801\<rparr> \<noteq> 0"
    by simp
  then have h4: "bit (occupied \<lparr>remaining = 3, occupied = 0x0801\<rparr>) 0
      \<longrightarrow> remaining \<lparr>remaining = 3, occupied = 0x0801\<rparr> \<noteq> 0"
    by (simp only: simp_thms)
  have e: "unat (11 :: Position) + unat (4 :: Steps) = 15"
    by simp
  have r: "apply_move \<lparr>remaining = 3, occupied = 0x0801\<rparr> \<lparr>remaining = 5, occupied = 0x0201\<rparr> 11 4
       = (\<lparr>remaining = 3, occupied = 0x0001\<rparr>, \<lparr>remaining = 5, occupied = 0x0201\<rparr>, Inr False)"
    by code_simp
  from apply_move_conserves [OF h1 h2 h3 h4] r e
  have a: "conserved \<lparr>remaining = 3, occupied = 0x0001\<rparr> 4
     \<and> conserved \<lparr>remaining = 5, occupied = 0x0201\<rparr> 1"
    by simp
  from h1 h2 h3 n e r a show ?thesis by (simp only: simp_thms)
qed

text \<open>
  The hypothesis on bit 0 is itself kept by every legal move, for both sides, so that
  the conservation equation together with the pile flag is an invariant of play from
  \<open>START\<close>.
\<close>

lemma apply_move_keeps_pile_flag:
  assumes legal: "unat start \<in> positions (getOptions self other steps)"
    and "pile_flag_in_sync self" and "pile_flag_in_sync other"
    and "conserved other fo"
  shows "\<exists>self' other' again.
      apply_move self other start steps = (self', other', Inr again)
      \<and> pile_flag_in_sync self' \<and> pile_flag_in_sync other'"
proof -
  note L = legal_start [OF legal]
  have r: "unat start < 16" using L(1) by simp
  have z: "start = 0 \<longleftrightarrow> unat start = 0" by (simp add: unat_eq_0)
  from assms(4) have "unat (remaining other) \<le> 7" by (simp add: conserved_def TILES_def)
  then have "unat (remaining other + 1) = unat (remaining other) + 1" by (rule unat_succ)
  then have n: "remaining other + 1 \<noteq> 0" by (auto simp add: unat_eq_0 [symmetric] simp del: unat_eq_0)
  show ?thesis
    unfolding apply_move_in_range [OF r] Let_def L(3)
    using assms(2,3) L(4,6) n z
    by (auto simp add: pile_flag_in_sync_def bit_set_bit_iff bit_unset_bit_iff)
qed

lemma START_well_formed: "conserved START 0 \<and> pile_flag_in_sync START"
proof -
  have "conserved START 0" by code_simp
  moreover have "pile_flag_in_sync START"
    by (simp add: pile_flag_in_sync_def START_def TILES_def)
  ultimately show ?thesis by (simp only: simp_thms)
qed

end
